theory Spec2Isabelle
  imports Main
begin

section \<open>Common notions\<close>

text \<open>
  Object identity is a reference (an address). Two Python expressions denote the same
  object exactly when they evaluate to the same reference; \<open>is\<close> compares references.
\<close>

type_synonym ref = nat

text \<open>The exceptions the modelled code can raise.\<close>

datatype py_error = StopIteration | ValueError

section \<open>Iterator pattern (iterator_pattern.py)\<close>

text \<open>
  \<^verbatim>\<open>
  class MyCollection:
      def __init__(self):
          self._items = []
      def add_item(self, item):
          self._items.append(item)
      def __iter__(self):
          return MyIterator(self._items)
  \<close>
  The attribute \<open>_items\<close> holds a reference to a list object. The list objects live in a
  store; \<open>append\<close> mutates the list object in place, so every holder of the reference
  sees the change.
\<close>

record 'a list_store =
  list_objs :: "ref \<Rightarrow> 'a list"
  next_list :: ref

record MyCollection =
  items :: ref

record MyIterator =
  it_items :: ref
  it_index :: nat

definition MyCollection_init :: "'a list_store \<Rightarrow> MyCollection \<times> 'a list_store" where
  "MyCollection_init s =
     (\<lparr>items = next_list s\<rparr>,
      s\<lparr>list_objs := (list_objs s)(next_list s := []), next_list := Suc (next_list s)\<rparr>)"

definition add_item :: "MyCollection \<Rightarrow> 'a \<Rightarrow> 'a list_store \<Rightarrow> 'a list_store" where
  "add_item c item s = s\<lparr>list_objs := (list_objs s)(items c := list_objs s (items c) @ [item])\<rparr>"

text \<open>\<open>MyIterator(self._items)\<close>: the cursor receives the reference, not a copy, and starts at 0.\<close>

definition MyIterator_init :: "ref \<Rightarrow> MyIterator" where
  "MyIterator_init r = \<lparr>it_items = r, it_index = 0\<rparr>"

definition MyCollection_iter :: "MyCollection \<Rightarrow> MyIterator" where
  "MyCollection_iter c = MyIterator_init (items c)"

text \<open>
  \<^verbatim>\<open>
  def __next__(self):
      if self._index < len(self._items):
          item = self._items[self._index]
          self._index += 1
          return item
      raise StopIteration
  \<close>
  The outcome is the produced item or the exception, together with the cursor afterwards
  (a raise leaves the cursor as it was).
\<close>

definition MyIterator_next ::
  "MyIterator \<Rightarrow> 'a list_store \<Rightarrow> (py_error + 'a) \<times> MyIterator" where
  "MyIterator_next it s =
     (if it_index it < length (list_objs s (it_items it))
      then (Inr (list_objs s (it_items it) ! it_index it), it\<lparr>it_index := it_index it + 1\<rparr>)
      else (Inl StopIteration, it))"

text \<open>Appending a sequence of items, one \<open>add_item\<close> call each, in order.\<close>

fun add_items :: "MyCollection \<Rightarrow> 'a list \<Rightarrow> 'a list_store \<Rightarrow> 'a list_store" where
  "add_items c [] s = s"
| "add_items c (x # xs) s = add_items c xs (add_item c x s)"

text \<open>\<open>k\<close> successive calls of \<open>__next__\<close> on one cursor, the store untouched in between:
  the outcomes in call order, and the cursor afterwards.\<close>

fun next_calls ::
  "nat \<Rightarrow> MyIterator \<Rightarrow> 'a list_store \<Rightarrow> (py_error + 'a) list \<times> MyIterator" where
  "next_calls 0 it s = ([], it)"
| "next_calls (Suc k) it s =
     (case MyIterator_next it s of
        (r, it') \<Rightarrow> (case next_calls k it' s of (rs, it'') \<Rightarrow> (r # rs, it'')))"

text \<open>
  \<^verbatim>\<open>
  for fruit in collection:
      print(fruit)
  \<close>
  The loop asks the collection for a cursor and calls \<open>__next__\<close> until it raises
  \<open>StopIteration\<close>; the result is the list of lines printed.
\<close>

function for_loop :: "MyIterator \<Rightarrow> 'a list_store \<Rightarrow> 'a list" where
  "for_loop it s =
     (case MyIterator_next it s of
        (Inr fruit, it') \<Rightarrow> fruit # for_loop it' s
      | (Inl e, it') \<Rightarrow> [])"
  by pat_completeness auto
termination
  by (relation "measure (\<lambda>(it, s). length (list_objs s (it_items it)) - it_index it)")
     (auto simp: MyIterator_next_def split: if_splits)

declare for_loop.simps [simp del]

definition for_in :: "MyCollection \<Rightarrow> 'a list_store \<Rightarrow> 'a list" where
  "for_in c s = for_loop (MyCollection_iter c) s"

text \<open>The usage script: an empty store, a new collection, three fruits appended.\<close>

definition empty_store :: "string list_store" where
  "empty_store = \<lparr>list_objs = (\<lambda>r. []), next_list = 0\<rparr>"

definition fruit_collection :: MyCollection where
  "fruit_collection = fst (MyCollection_init empty_store)"

definition fruit_store :: "string list_store" where
  "fruit_store =
     add_items fruit_collection [''Apple'', ''Banana'', ''Cherry'']
       (snd (MyCollection_init empty_store))"

section \<open>Observer pattern (observer_pattern.py)\<close>

text \<open>
  \<^verbatim>\<open>
  class Subject:
      def __init__(self):
          self._observers = []
          self._state = None
  \<close>
  Subscribers are objects, held by reference: \<open>list.remove\<close> finds an \<open>Observer\<close> by
  identity, since the class defines no \<open>__eq__\<close>. The state is any Python value, \<open>None\<close>
  included.
\<close>

record 'st Subject =
  observers :: "ref list"
  state :: "'st option"

definition Subject_init :: "'st Subject" where
  "Subject_init = \<lparr>observers = [], state = None\<rparr>"

text \<open>\<^verbatim>\<open>self._observers.append(observer)\<close>\<close>

definition attach :: "ref \<Rightarrow> 'st Subject \<Rightarrow> 'st Subject" where
  "attach observer subj = subj\<lparr>observers := observers subj @ [observer]\<rparr>"

text \<open>
  \<^verbatim>\<open>self._observers.remove(observer)\<close>: removes the first occurrence, and raises
  \<open>ValueError\<close> when there is none. The subject afterwards is part of the outcome.
\<close>

definition detach :: "ref \<Rightarrow> 'st Subject \<Rightarrow> (py_error + unit) \<times> 'st Subject" where
  "detach observer subj =
     (if observer \<in> set (observers subj)
      then (Inr (), subj\<lparr>observers := remove1 observer (observers subj)\<rparr>)
      else (Inl ValueError, subj))"

text \<open>
  \<^verbatim>\<open>
  def _notify(self):
      for observer in self._observers:
          observer.update(self._state)
  \<close>
  \<open>update\<close> is the method of whatever object was attached, so it is a parameter. It is
  called with the subscriber and the state; it may change the world outside the subject
  (the console, for the \<open>Observer\<close> class), may change the subject itself (attach, detach
  and the setter change the subject's objects in place), and may raise: its outcome is the
  exception or \<open>None\<close>, with the subject and the world afterwards.
\<close>

type_synonym ('st, 'w, 'e) update_method =
  "ref \<Rightarrow> 'st option \<Rightarrow> 'st Subject \<Rightarrow> 'w \<Rightarrow> ('e + unit) \<times> 'st Subject \<times> 'w"

text \<open>
  The \<open>for\<close> statement walks the list object itself, by position: each round it tests
  the position against the list's current length, takes the element there, advances, and
  runs the body, which reads \<open>self._state\<close> anew. What a body did to the list or the state
  is seen by the following rounds. An exception raised by \<open>update\<close> ends the loop and
  propagates. A loop that never ends (a subscriber attaching another one at each call)
  has no result, \<open>None\<close> here.
\<close>

partial_function (option) notify_from ::
  "('st, 'w, 'e) update_method \<Rightarrow> nat \<Rightarrow> 'st Subject \<Rightarrow> 'w \<Rightarrow>
     (('e + unit) \<times> 'st Subject \<times> 'w) option" where
  "notify_from update i subj w =
     (if i < length (observers subj)
      then (case update (observers subj ! i) (state subj) subj w of
              (Inl e, subj', w') \<Rightarrow> Some (Inl e, subj', w')
            | (Inr u, subj', w') \<Rightarrow> notify_from update (i + 1) subj' w')
      else Some (Inr (), subj, w))"

definition notify ::
  "('st, 'w, 'e) update_method \<Rightarrow> 'st Subject \<Rightarrow> 'w \<Rightarrow> (('e + unit) \<times> 'st Subject \<times> 'w) option" where
  "notify update subj w = notify_from update 0 subj w"

text \<open>The property \<open>state\<close>: its getter, and its setter
  \<^verbatim>\<open>self._state = new_state; self._notify()\<close>. The setter's outcome is that of
  \<open>_notify\<close>; the state is stored before any subscriber is called.\<close>

definition get_state :: "'st Subject \<Rightarrow> 'st option" where
  "get_state subj = state subj"

definition set_state ::
  "('st, 'w, 'e) update_method \<Rightarrow> 'st option \<Rightarrow> 'st Subject \<Rightarrow> 'w \<Rightarrow>
     (('e + unit) \<times> 'st Subject \<times> 'w) option" where
  "set_state update new_state subj w = notify update (subj\<lparr>state := new_state\<rparr>) w"

text \<open>
  \<^verbatim>\<open>
  class Observer:
      def __init__(self, name):
          self.name = name
      def update(self, state):
          print(f"Observer {self.name}: Subject's state is now {state}")
  \<close>
  The world of this \<open>update\<close> is the console, a list of lines. \<open>str\<close> is Python's
  formatting of the state value; \<open>heap\<close> gives the object behind a reference. It returns
  \<open>None\<close> and does not touch the subject.
\<close>

record Observer =
  name :: string

definition Observer_update ::
  "('st option \<Rightarrow> string) \<Rightarrow> (ref \<Rightarrow> Observer) \<Rightarrow> ('st, string list, 'e) update_method" where
  "Observer_update str heap self st subj out =
     (Inr (), subj,
      out @ [''Observer '' @ name (heap self) @ '': Subject's state is now '' @ str st])"

text \<open>
  Other subscribers, for the subject accepts any object with an \<open>update\<close> method. The
  world of each is the list of calls received so far: who was called, with what state.
  \<^item> \<open>record_update\<close> only records the call.
  \<^item> \<open>detaching_update d\<close>: the subscriber at reference \<open>d\<close> records the call and then
    detaches itself from the subject (\<open>subject.detach(self)\<close>); the others only record.
  \<^item> \<open>raising_update b\<close>: the subscriber at reference \<open>b\<close> records the call and then
    raises; the others only record.
\<close>

definition record_update :: "('st, (ref \<times> 'st option) list, 'e) update_method" where
  "record_update self st subj calls = (Inr (), subj, calls @ [(self, st)])"

definition detaching_update :: "ref \<Rightarrow> ('st, (ref \<times> 'st option) list, py_error) update_method" where
  "detaching_update d self st subj calls =
     (if self = d
      then (fst (detach self subj), snd (detach self subj), calls @ [(self, st)])
      else (Inr (), subj, calls @ [(self, st)]))"

definition raising_update :: "ref \<Rightarrow> ('st, (ref \<times> 'st option) list, py_error) update_method" where
  "raising_update b self st subj calls =
     (if self = b
      then (Inl ValueError, subj, calls @ [(self, st)])
      else (Inr (), subj, calls @ [(self, st)]))"

text \<open>The usage script: three observers, at references 1, 2 and 3, attached in this order.\<close>

definition usage_heap :: "ref \<Rightarrow> Observer" where
  "usage_heap r =
     (if r = 1 then \<lparr>name = ''Observer 1''\<rparr>
      else if r = 2 then \<lparr>name = ''Observer 2''\<rparr>
      else \<lparr>name = ''Observer 3''\<rparr>)"

definition usage_subject :: "int Subject" where
  "usage_subject = attach 3 (attach 2 (attach 1 Subject_init))"

section \<open>Singleton pattern (singleton_pattern.py)\<close>

text \<open>
  \<^verbatim>\<open>
  class Singleton:
      _instance = None
      def __new__(cls):
          if cls._instance is None:
              cls._instance = super(Singleton, cls).__new__(cls)
              cls._instance.value = 0
          return cls._instance
      def increment(self):
          self.value += 1
  \<close>
  The class attribute \<open>_instance\<close> is global state; instances live in a store and are known
  by reference. \<open>val\<close> is the attribute \<open>value\<close>, a Python integer.
\<close>

record Singleton_obj =
  val :: int

record singleton_world =
  cls_instance :: "ref option"
  objs :: "ref \<Rightarrow> Singleton_obj"
  next_obj :: ref

definition Singleton_new :: "singleton_world \<Rightarrow> ref \<times> singleton_world" where
  "Singleton_new w =
     (case cls_instance w of
        None \<Rightarrow>
          (next_obj w,
           w\<lparr>cls_instance := Some (next_obj w),
             objs := (objs w)(next_obj w := \<lparr>val = 0\<rparr>),
             next_obj := Suc (next_obj w)\<rparr>)
      | Some r \<Rightarrow> (r, w))"

definition increment :: "ref \<Rightarrow> singleton_world \<Rightarrow> singleton_world" where
  "increment self w = w\<lparr>objs := (objs w)(self := (objs w self)\<lparr>val := val (objs w self) + 1\<rparr>)\<rparr>"

text \<open>
  A client of the class: a sequence of statements, each a construction request
  \<open>Singleton()\<close>, whose result is kept, or \<open>s.increment()\<close> through the reference that
  request number \<open>i\<close> returned. Running it gives the references returned so far and the
  world.
\<close>

datatype stmt = Construct | Increment nat

fun exec :: "ref list \<times> singleton_world \<Rightarrow> stmt \<Rightarrow> ref list \<times> singleton_world" where
  "exec (refs, w) Construct = (case Singleton_new w of (r, w') \<Rightarrow> (refs @ [r], w'))"
| "exec (refs, w) (Increment i) =
     (if i < length refs then (refs, increment (refs ! i) w) else (refs, w))"

definition run :: "stmt list \<Rightarrow> singleton_world \<Rightarrow> ref list \<times> singleton_world" where
  "run prog w = foldl exec ([], w) prog"

text \<open>The world when the class has just been defined: no instance yet.\<close>

definition class_defined :: singleton_world where
  "class_defined = \<lparr>cls_instance = None, objs = (\<lambda>r. \<lparr>val = 0\<rparr>), next_obj = 0\<rparr>"

text \<open>
  The usage script:
  \<^verbatim>\<open>s1 = Singleton(); s1.increment(); s2 = Singleton(); s2.increment()\<close>
\<close>

definition usage_prog :: "stmt list" where
  "usage_prog = [Construct, Increment 0, Construct, Increment 1]"

section \<open>Decorator pattern (decorator_pattern.py)\<close>

text \<open>
  A Python function that prints is modelled by its outcome on given arguments: the value
  returned or the exception raised, and the lines printed on the way, in order.
  \<^verbatim>\<open>
  def greet(func):
      def wrapper(*args, **kwargs):
          print("Hello!")
          return func(*args, **kwargs)
      return wrapper

  def farewell(func):
      def wrapper(*args, **kwargs):
          result = func(*args, **kwargs)
          print("Goodbye!")
          return result
      return wrapper
  \<close>
  When \<open>func\<close> raises inside \<open>farewell\<close>'s wrapper, the exception propagates and
  \<open>Goodbye!\<close> is not printed.
\<close>

type_synonym ('a, 'e, 'r) py_fun = "'a \<Rightarrow> ('e + 'r) \<times> string list"

definition greet :: "('a, 'e, 'r) py_fun \<Rightarrow> ('a, 'e, 'r) py_fun" where
  "greet func = (\<lambda>args. case func args of (res, printed) \<Rightarrow> (res, ''Hello!'' # printed))"

definition farewell :: "('a, 'e, 'r) py_fun \<Rightarrow> ('a, 'e, 'r) py_fun" where
  "farewell func =
     (\<lambda>args. case func args of
        (Inr result, printed) \<Rightarrow> (Inr result, printed @ [''Goodbye!''])
      | (Inl e, printed) \<Rightarrow> (Inl e, printed))"

text \<open>
  \<^verbatim>\<open>
  @greet
  @farewell
  def say_name(name):
      print(f"My name is {name}.")

  @greet
  def add_numbers(a, b):
      return a + b
  \<close>
  \<open>say_name\<close> returns \<open>None\<close>, the unit value here.
\<close>

definition say_name_body :: "(string, 'e, unit) py_fun" where
  "say_name_body nm = (Inr (), [''My name is '' @ nm @ ''.''])"

definition say_name :: "(string, 'e, unit) py_fun" where
  "say_name = greet (farewell say_name_body)"

definition add_numbers_body :: "(int \<times> int, 'e, int) py_fun" where
  "add_numbers_body = (\<lambda>(a, b). (Inr (a + b), []))"

definition add_numbers :: "(int \<times> int, 'e, int) py_fun" where
  "add_numbers = greet add_numbers_body"

section \<open>Properties of the iterator\<close>

lemma objs_add_item:
  "list_objs (add_item c x s) r = (if r = items c then list_objs s r @ [x] else list_objs s r)"
  by (simp add: add_item_def)

lemma objs_add_items:
  "list_objs (add_items c xs s) r = (if r = items c then list_objs s r @ xs else list_objs s r)"
  by (induction xs arbitrary: s) (simp_all add: objs_add_item)

lemma objs_init:
  "list_objs (snd (MyCollection_init s)) (items (fst (MyCollection_init s))) = []"
  by (simp add: MyCollection_init_def)

lemma fresh_contents:
  "MyCollection_init s0 = (c, s1) \<Longrightarrow> list_objs (add_items c xs s1) (items c) = xs"
  by (auto simp: objs_add_items MyCollection_init_def)

text \<open>What \<open>k\<close> calls on an untouched store produce, from any cursor position: the items
  from the position on, then \<open>StopIteration\<close> for every further call.\<close>

lemma next_calls_gen:
  "next_calls k it s =
     (map Inr (take k (drop (it_index it) (list_objs s (it_items it))))
        @ replicate (k - (length (list_objs s (it_items it)) - it_index it)) (Inl StopIteration),
      it\<lparr>it_index := max (it_index it) (min (it_index it + k) (length (list_objs s (it_items it))))\<rparr>)"
proof (induction k arbitrary: it)
  case 0
  then show ?case by simp
next
  case (Suc k)
  let ?xs = "list_objs s (it_items it)"
  let ?i = "it_index it"
  show ?case
  proof (cases "?i < length ?xs")
    case True
    have step: "MyIterator_next it s = (Inr (?xs ! ?i), it\<lparr>it_index := ?i + 1\<rparr>)"
      using True by (simp add: MyIterator_next_def)
    have dr: "drop ?i ?xs = ?xs ! ?i # drop (Suc ?i) ?xs"
      using True by (simp add: Cons_nth_drop_Suc)
    have cnt: "Suc k - (length ?xs - ?i) = k - (length ?xs - Suc ?i)"
      using True by arith
    have idx: "max (Suc ?i) (min (Suc (?i + k)) (length ?xs)) = max ?i (min (Suc (?i + k)) (length ?xs))"
      using True by arith
    show ?thesis
      unfolding next_calls.simps step
      by (simp add: Suc dr cnt idx)
  next
    case False
    have step: "MyIterator_next it s = (Inl StopIteration, it)"
      using False by (simp add: MyIterator_next_def)
    have cnt: "Suc k - (length ?xs - ?i) = Suc (k - (length ?xs - ?i))"
      using False by arith
    show ?thesis
      unfolding next_calls.simps step
      using False by (simp add: Suc cnt)
  qed
qed

lemma cursor_after_calls:
  "snd (next_calls k (MyCollection_iter c) s) =
     \<lparr>it_items = items c, it_index = min k (length (list_objs s (items c)))\<rparr>"
  by (simp add: next_calls_gen MyCollection_iter_def MyIterator_init_def)

lemma nth_call:
  "fst (MyIterator_next (snd (next_calls k (MyCollection_iter c) s)) s) =
     (if k < length (list_objs s (items c)) then Inr (list_objs s (items c) ! k)
      else Inl StopIteration)"
  by (simp add: cursor_after_calls MyIterator_next_def)

text \<open>The \<open>for\<close> loop terminates and yields the items from the cursor's position on.\<close>

lemma for_loop_eq: "for_loop it s = drop (it_index it) (list_objs s (it_items it))"
proof (induction it s rule: for_loop.induct)
  case (1 it s)
  show ?case
  proof (cases "it_index it < length (list_objs s (it_items it))")
    case True
    then show ?thesis
      using 1 [of "Inr (list_objs s (it_items it) ! it_index it)" "it\<lparr>it_index := it_index it + 1\<rparr>"]
      by (subst for_loop.simps) (simp add: MyIterator_next_def Cons_nth_drop_Suc)
  next
    case False
    then show ?thesis
      by (subst for_loop.simps) (simp add: MyIterator_next_def)
  qed
qed

lemma for_in_eq: "for_in c s = list_objs s (items c)"
  by (simp add: for_in_def for_loop_eq MyCollection_iter_def MyIterator_init_def)

text \<open>
  C2. On a container to which exactly \<open>N\<close> items have been appended (\<open>xs\<close>, of length
  \<open>N\<close>), the call number \<open>k + 1\<close> of \<open>__next__\<close> on a fresh cursor returns a value whenever
  \<open>k < N\<close>, and raises \<open>StopIteration\<close> whenever \<open>N \<le> k\<close>: the call \<open>N + 1\<close> and every
  later call on the unmodified container signal exhaustion.
\<close>

theorem exhaustion_after_N:
  assumes "MyCollection_init s0 = (c, s1)" and "s = add_items c xs s1"
  shows "(k < length xs \<longrightarrow>
            (\<exists>v. fst (MyIterator_next (snd (next_calls k (MyCollection_iter c) s)) s) = Inr v))
       \<and> (length xs \<le> k \<longrightarrow>
            fst (MyIterator_next (snd (next_calls k (MyCollection_iter c) s)) s) = Inl StopIteration)"
  using fresh_contents [OF assms(1), of xs] assms(2) by (simp add: nth_call)

theorem exhaustion_after_N_witness:
  "(\<exists>v. fst (MyIterator_next (snd (next_calls 2 (MyCollection_iter fruit_collection) fruit_store))
        fruit_store) = Inr v)
   \<and> fst (MyIterator_next (snd (next_calls 3 (MyCollection_iter fruit_collection) fruit_store))
        fruit_store) = Inl StopIteration
   \<and> fst (MyIterator_next (snd (next_calls 7 (MyCollection_iter fruit_collection) fruit_store))
        fruit_store) = Inl StopIteration"
proof -
  have i: "MyCollection_init empty_store = (fruit_collection, snd (MyCollection_init empty_store))"
    by (simp add: fruit_collection_def)
  have s: "fruit_store =
     add_items fruit_collection [''Apple'', ''Banana'', ''Cherry''] (snd (MyCollection_init empty_store))"
    by (simp add: fruit_store_def)
  show ?thesis
    using exhaustion_after_N [OF i s, of 2] exhaustion_after_N [OF i s, of 3]
      exhaustion_after_N [OF i s, of 7]
    by simp
qed

text \<open>
  C3. On a container to which the items \<open>xs\<close> have been appended in this order, the
  production number \<open>i + 1\<close> of a fresh cursor returns \<open>xs ! i\<close>, and the \<open>for\<close> loop
  over the container yields exactly \<open>xs\<close>: append order, duplicates kept.
\<close>

theorem append_order:
  assumes "MyCollection_init s0 = (c, s1)" and "s = add_items c xs s1"
  shows "for_in c s = xs
       \<and> (i < length xs \<longrightarrow>
            fst (MyIterator_next (snd (next_calls i (MyCollection_iter c) s)) s) = Inr (xs ! i))"
proof -
  have xs: "list_objs s (items c) = xs"
    using fresh_contents [OF assms(1), of xs] assms(2) by simp
  show ?thesis
    by (simp add: for_in_eq nth_call xs)
qed

theorem append_order_witness:
  "for_in fruit_collection fruit_store = [''Apple'', ''Banana'', ''Cherry'']
   \<and> fst (MyIterator_next (snd (next_calls 1 (MyCollection_iter fruit_collection) fruit_store))
        fruit_store) = Inr ''Banana''"
proof -
  have i: "MyCollection_init empty_store = (fruit_collection, snd (MyCollection_init empty_store))"
    by (simp add: fruit_collection_def)
  have s: "fruit_store =
     add_items fruit_collection [''Apple'', ''Banana'', ''Cherry''] (snd (MyCollection_init empty_store))"
    by (simp add: fruit_store_def)
  show ?thesis
    using append_order [OF i s, of 1]
    by simp
qed

lemma fruit_contents:
  "list_objs fruit_store (items fruit_collection) = [''Apple'', ''Banana'', ''Cherry'']"
  unfolding fruit_store_def
  by (rule fresh_contents [of empty_store]) (simp add: fruit_collection_def)

text \<open>
  C1, as stated, fails: the cursor holds the container's list by reference. A cursor made
  from the empty collection raises \<open>StopIteration\<close> at its first call; the same cursor,
  after \<open>Apple\<close> has been appended to the collection, returns \<open>Apple\<close>.
\<close>

theorem cursor_snapshot_counterexample:
  "fst (MyIterator_next (MyCollection_iter fruit_collection) (snd (MyCollection_init empty_store)))
     = Inl StopIteration
   \<and> fst (MyIterator_next (MyCollection_iter fruit_collection)
        (add_item fruit_collection ''Apple'' (snd (MyCollection_init empty_store))))
     = Inr ''Apple''"
  by (simp add: MyIterator_next_def MyCollection_iter_def MyIterator_init_def add_item_def
      fruit_collection_def MyCollection_init_def empty_store_def)

text \<open>
  C1, amended. A cursor reads the container's list as it is at each call. Let a cursor be
  made from a container holding \<open>xs\<close>, make \<open>j\<close> calls, and let \<open>ys\<close> then be appended to
  the container. Its next \<open>k\<close> calls produce the items of \<open>xs @ ys\<close> from position
  \<open>min j (length xs)\<close> on, the appended ones included, and raise \<open>StopIteration\<close> only
  past the end of \<open>xs @ ys\<close>.
\<close>

theorem cursor_reads_live_list:
  "fst (next_calls k (snd (next_calls j (MyCollection_iter c) s)) (add_items c ys s)) =
     map Inr (take k (drop (min j (length (list_objs s (items c)))) (list_objs s (items c) @ ys)))
     @ replicate (k - (length (list_objs s (items c) @ ys) - min j (length (list_objs s (items c)))))
         (Inl StopIteration)"
proof -
  let ?it = "\<lparr>it_items = items c, it_index = min j (length (list_objs s (items c)))\<rparr>"
  have "fst (next_calls k ?it (add_items c ys s)) =
     map Inr (take k (drop (min j (length (list_objs s (items c)))) (list_objs s (items c) @ ys)))
     @ replicate (k - (length (list_objs s (items c) @ ys) - min j (length (list_objs s (items c)))))
         (Inl StopIteration)"
    by (simp add: next_calls_gen objs_add_items)
  then show ?thesis
    by (simp only: cursor_after_calls)
qed

theorem cursor_reads_live_list_witness:
  "fst (next_calls 3 (snd (next_calls 5 (MyCollection_iter fruit_collection) fruit_store))
      (add_items fruit_collection [''Date'', ''Elderberry''] fruit_store))
   = [Inr ''Date'', Inr ''Elderberry'', Inl StopIteration]"
  using cursor_reads_live_list [where k = 3 and j = 5 and c = fruit_collection and s = fruit_store
      and ys = "[''Date'', ''Elderberry'']"]
  by (simp add: fruit_contents numeral_3_eq_3)

section \<open>Properties of the observer\<close>

text \<open>
  A subscriber is \<^emph>\<open>passive\<close> when its \<open>update\<close> returns without raising and leaves the
  subject as it found it, as \<open>Observer.update\<close> does. With passive subscribers the loop
  returns, and has called \<open>update\<close> once for each position from \<open>i\<close> on, in order.
\<close>

lemma notify_from_passive:
  assumes "\<And>r st s w. r \<in> set (observers subj) \<Longrightarrow> \<exists>w'. update r st s w = (Inr (), s, w')"
  shows "notify_from update i subj w =
     Some (Inr (), subj,
       foldl (\<lambda>w r. snd (snd (update r (state subj) subj w))) w (drop i (observers subj)))"
proof (induction "length (observers subj) - i" arbitrary: i w)
  case 0
  then show ?case by (subst notify_from.simps) simp
next
  case (Suc n)
  then have lt: "i < length (observers subj)" by simp
  then have "observers subj ! i \<in> set (observers subj)" by simp
  from assms [OF this, of "state subj" subj w]
  obtain w' where u: "update (observers subj ! i) (state subj) subj w = (Inr (), subj, w')" by blast
  have n: "n = length (observers subj) - Suc i" using Suc.hyps(2) by simp
  have dr: "drop i (observers subj) = observers subj ! i # drop (Suc i) (observers subj)"
    using lt by (simp add: Cons_nth_drop_Suc)
  show ?case
    by (subst notify_from.simps) (simp add: lt u Suc.hyps(1) [OF n] dr)
qed

lemma set_state_passive:
  assumes "\<And>r st s w. r \<in> set (observers subj) \<Longrightarrow> \<exists>w'. update r st s w = (Inr (), s, w')"
  shows "set_state update v subj w =
     Some (Inr (), subj\<lparr>state := v\<rparr>,
       foldl (\<lambda>w r. snd (snd (update r v (subj\<lparr>state := v\<rparr>) w))) w (observers subj))"
proof -
  have "\<And>r st s w. r \<in> set (observers (subj\<lparr>state := v\<rparr>)) \<Longrightarrow>
      \<exists>w'. update r st s w = (Inr (), s, w')"
    using assms by simp
  from notify_from_passive [of "subj\<lparr>state := v\<rparr>" update 0 w, OF this]
  show ?thesis by (simp add: set_state_def notify_def)
qed

lemma foldl_record:
  "foldl (\<lambda>w r. snd (snd (record_update r v s w))) calls os = calls @ map (\<lambda>r. (r, v)) os"
  by (induction os arbitrary: calls) (simp_all add: record_update_def)

lemma set_state_record:
  "set_state record_update v subj calls =
     Some (Inr (), subj\<lparr>state := v\<rparr>, calls @ map (\<lambda>r. (r, v)) (observers subj))"
proof -
  have "\<And>r st s w. r \<in> set (observers subj) \<Longrightarrow>
      \<exists>w'. record_update r st s w = (Inr (), s, w')"
    by (simp add: record_update_def)
  from set_state_passive [of subj record_update v calls, OF this]
  show ?thesis by (simp add: foldl_record)
qed

lemma observers_attach_pow:
  "observers ((attach x ^^ k) subj) = observers subj @ replicate k x"
  by (induction k) (simp_all add: attach_def replicate_append_same)

lemma count_calls:
  "count_list (map (\<lambda>r. (r, v)) os) (x, v) = count_list os x"
  by (induction os) simp_all

lemma remove1_once:
  "count_list xs x = 1 \<Longrightarrow> remove1 x xs = filter (\<lambda>r. r \<noteq> x) xs"
proof (induction xs)
  case Nil
  then show ?case by simp
next
  case (Cons a xs)
  show ?case
  proof (cases "a = x")
    case True
    with Cons.prems have "count_list xs x = 0" by simp
    then have "x \<notin> set xs" by (simp add: count_list_0_iff)
    then have "filter (\<lambda>r. r \<noteq> x) xs = xs" by (auto simp: filter_id_conv)
    with True show ?thesis by simp
  next
    case False
    with Cons show ?thesis by simp
  qed
qed

text \<open>The usage script's first state change, with the \<open>Observer\<close> class printing.\<close>

lemma usage_print:
  "set_state (Observer_update str usage_heap) (Some 10) usage_subject [] =
    Some (Inr (), usage_subject\<lparr>state := Some 10\<rparr>,
      [''Observer Observer 1: Subject's state is now '' @ str (Some 10),
       ''Observer Observer 2: Subject's state is now '' @ str (Some 10),
       ''Observer Observer 3: Subject's state is now '' @ str (Some 10)])"
  by (simp add: set_state_def notify_def notify_from.simps Observer_update_def
      usage_subject_def attach_def Subject_init_def usage_heap_def)

text \<open>
  C4, as stated, fails in three ways.
  \<^item> A subscriber attached twice is notified twice by one state change, not exactly once.
  \<^item> With the subscribers 1, 2, 3 attached, where 1 detaches itself when notified, the
    state change notifies 1 and 3 only: the loop's second position then holds 3, and 2,
    attached all along, is never notified.
  \<^item> With the subscribers 1, 2, 3 attached, where 2 raises when notified, the setter raises
    and 3 is never notified.
\<close>

theorem notify_once_counterexample:
  "set_state record_update (Some 10) (attach 1 (attach 1 (Subject_init :: int Subject))) []
     = Some (Inr () :: py_error + unit, \<lparr>observers = [1, 1], state = Some 10\<rparr>,
         [(1, Some 10), (1, Some 10)])
   \<and> set_state (detaching_update 1) (Some 10) usage_subject []
     = Some (Inr (), \<lparr>observers = [2, 3], state = Some 10\<rparr>, [(1, Some 10), (3, Some 10)])
   \<and> set_state (raising_update 2) (Some 10) usage_subject []
     = Some (Inl ValueError, \<lparr>observers = [1, 2, 3], state = Some 10\<rparr>,
         [(1, Some 10), (2, Some 10)])"
  by (simp add: set_state_def notify_def notify_from.simps record_update_def detaching_update_def
      raising_update_def detach_def usage_subject_def attach_def Subject_init_def)

text \<open>
  C4, amended. When every attached subscriber is passive (its \<open>update\<close> returns without
  raising and leaves the subject unchanged), setting the state returns, has stored the
  value, and has called \<open>update\<close> once for each registration, in attachment order, with
  the new state and the subject holding it. The calls recorded are exactly the list of
  registrations, each paired with the new value, so a subscriber is notified as many
  times as it is attached (once when attached once). The subject's state afterwards is
  the value set and its registrations are unchanged.
\<close>

theorem set_state_notifies_all:
  assumes "\<And>r st s w. r \<in> set (observers subj) \<Longrightarrow> \<exists>w'. update r st s w = (Inr (), s, w')"
  shows "set_state update v subj w =
       Some (Inr (), subj\<lparr>state := v\<rparr>,
         foldl (\<lambda>w r. snd (snd (update r v (subj\<lparr>state := v\<rparr>) w))) w (observers subj))
   \<and> set_state record_update v subj calls =
       Some (Inr () :: py_error + unit, subj\<lparr>state := v\<rparr>,
         calls @ map (\<lambda>r. (r, v)) (observers subj))
   \<and> count_list (map (\<lambda>r. (r, v)) (observers subj)) (x, v) = count_list (observers subj) x
   \<and> get_state (subj\<lparr>state := v\<rparr>) = v
   \<and> observers (subj\<lparr>state := v\<rparr>) = observers subj"
  using set_state_passive [of subj update v w, OF assms]
  by (simp add: set_state_record count_calls get_state_def)

theorem set_state_notifies_all_witness:
  "set_state (detaching_update 9) (Some 10) usage_subject [] =
     Some (Inr (), \<lparr>observers = [1, 2, 3], state = Some 10\<rparr>,
       [(1, Some 10), (2, Some 10), (3, Some 10)])"
proof -
  have p: "\<And>r st s w. r \<in> set (observers usage_subject) \<Longrightarrow>
      \<exists>w'. detaching_update 9 r st (s :: int Subject) w = (Inr (), s, w')"
    by (auto simp: detaching_update_def usage_subject_def attach_def Subject_init_def)
  from set_state_notifies_all [where subj = usage_subject and update = "detaching_update 9"
      and v = "Some 10" and w = "[]" and calls = "[]" and x = 1, OF p]
  show ?thesis
    by (simp add: detaching_update_def usage_subject_def attach_def Subject_init_def)
qed

text \<open>
  C5, as stated, fails in two ways.
  \<^item> \<open>detach\<close> removes one registration: the subscriber 1, attached twice and detached
    once, is still notified by the next state change.
  \<^item> With the subscribers 1, 2, 3, 4 attached, where 1 detaches itself when notified,
    after detaching 2 the state change notifies 1 and 4 only: 3, a remaining subscriber,
    is not notified.
\<close>

theorem detach_duplicate_counterexample:
  "fst (detach 1 (attach 1 (attach 1 (Subject_init :: int Subject)))) = Inr ()
   \<and> set_state record_update (Some 20)
        (snd (detach 1 (attach 1 (attach 1 (Subject_init :: int Subject))))) []
     = Some (Inr () :: py_error + unit, \<lparr>observers = [1], state = Some 20\<rparr>, [(1, Some 20)])
   \<and> fst (detach 2 (attach 4 usage_subject)) = Inr ()
   \<and> set_state (detaching_update 1) (Some 20) (snd (detach 2 (attach 4 usage_subject))) []
     = Some (Inr (), \<lparr>observers = [3, 4], state = Some 20\<rparr>, [(1, Some 20), (4, Some 20)])"
  by (simp add: set_state_def notify_def notify_from.simps record_update_def detaching_update_def
      detach_def usage_subject_def attach_def Subject_init_def)

text \<open>
  C5, amended. When the subscriber \<open>x\<close> is attached exactly once and every other attached
  subscriber is passive, detaching \<open>x\<close> succeeds, and the next state change returns, has
  notified the remaining registrations, in their original order, with the new state, and
  has not notified \<open>x\<close>.
\<close>

theorem detach_then_notify:
  assumes "count_list (observers subj) x = 1"
    and "\<And>r st s w. r \<in> set (observers subj) \<Longrightarrow> r \<noteq> x \<Longrightarrow>
           \<exists>w'. update r st s w = (Inr (), s, w')"
  shows "fst (detach x subj) = Inr ()
   \<and> set_state update v (snd (detach x subj)) w =
       Some (Inr (), (snd (detach x subj))\<lparr>state := v\<rparr>,
         foldl (\<lambda>w r. snd (snd (update r v ((snd (detach x subj))\<lparr>state := v\<rparr>) w))) w
           (filter (\<lambda>r. r \<noteq> x) (observers subj)))
   \<and> set_state record_update v (snd (detach x subj)) calls =
       Some (Inr () :: py_error + unit, (snd (detach x subj))\<lparr>state := v\<rparr>,
         calls @ map (\<lambda>r. (r, v)) (filter (\<lambda>r. r \<noteq> x) (observers subj)))
   \<and> x \<notin> fst ` set (map (\<lambda>r. (r, v)) (filter (\<lambda>r. r \<noteq> x) (observers subj)))"
proof -
  have "count_list (observers subj) x \<noteq> 0" using assms(1) by simp
  then have mem: "x \<in> set (observers subj)" by (simp add: count_list_0_iff)
  have d: "detach x subj = (Inr (), subj\<lparr>observers := filter (\<lambda>r. r \<noteq> x) (observers subj)\<rparr>)"
    using mem remove1_once [OF assms(1)] by (simp add: detach_def)
  have ob: "observers (snd (detach x subj)) = filter (\<lambda>r. r \<noteq> x) (observers subj)"
    by (simp add: d)
  have p: "\<And>r st s w. r \<in> set (observers (snd (detach x subj))) \<Longrightarrow>
      \<exists>w'. update r st s w = (Inr (), s, w')"
    using assms(2) by (simp add: ob)
  have a: "fst (detach x subj) = Inr ()" by (simp add: d)
  have b: "set_state update v (snd (detach x subj)) w =
       Some (Inr (), (snd (detach x subj))\<lparr>state := v\<rparr>,
         foldl (\<lambda>w r. snd (snd (update r v ((snd (detach x subj))\<lparr>state := v\<rparr>) w))) w
           (filter (\<lambda>r. r \<noteq> x) (observers subj)))"
    using set_state_passive [of "snd (detach x subj)" update v w, OF p] by (simp only: ob)
  have c: "set_state record_update v (snd (detach x subj)) calls =
       Some (Inr () :: py_error + unit, (snd (detach x subj))\<lparr>state := v\<rparr>,
         calls @ map (\<lambda>r. (r, v)) (filter (\<lambda>r. r \<noteq> x) (observers subj)))"
    by (simp only: set_state_record ob)
  have e: "x \<notin> fst ` set (map (\<lambda>r. (r, v)) (filter (\<lambda>r. r \<noteq> x) (observers subj)))"
    by auto
  show ?thesis using a b c e by blast
qed

theorem detach_then_notify_witness:
  "fst (detach 2 usage_subject) = Inr ()
   \<and> set_state (detaching_update 2) (Some 20) (snd (detach 2 usage_subject)) [] =
       Some (Inr (), \<lparr>observers = [1, 3], state = Some 20\<rparr>, [(1, Some 20), (3, Some 20)])"
proof -
  have c: "count_list (observers usage_subject) 2 = 1"
    by (simp add: usage_subject_def attach_def Subject_init_def)
  have p: "\<And>r st s w. r \<in> set (observers usage_subject) \<Longrightarrow> r \<noteq> 2 \<Longrightarrow>
      \<exists>w'. detaching_update 2 r st (s :: int Subject) w = (Inr (), s, w')"
    by (simp add: detaching_update_def)
  from detach_then_notify [where subj = usage_subject and x = 2 and update = "detaching_update 2"
      and v = "Some 20" and w = "[]" and calls = "[]", OF c p]
  show ?thesis
    by (simp add: detaching_update_def detach_def usage_subject_def attach_def Subject_init_def)
qed

text \<open>
  C6. Detaching a subscriber that is not attached raises \<open>ValueError\<close>, and leaves the
  subject, its registrations and its state, as it was.
\<close>

theorem detach_missing_fails:
  "x \<notin> set (observers subj) \<Longrightarrow> detach x subj = (Inl ValueError, subj)"
  by (simp add: detach_def)

theorem detach_missing_fails_witness:
  "detach 4 usage_subject = (Inl ValueError, usage_subject)"
proof -
  have "4 \<notin> set (observers usage_subject)"
    by (simp add: usage_subject_def attach_def Subject_init_def)
  then show ?thesis by (rule detach_missing_fails)
qed

text \<open>
  C10, as stated, fails for a subscriber that detaches itself when notified: attached
  twice, it is notified once by the state change, not twice, for its first call removes
  a registration and the loop's second position is then past the end of the list.
\<close>

theorem notify_k_times_counterexample:
  "observers (attach 7 (attach 7 (Subject_init :: int Subject))) = [7, 7]
   \<and> set_state (detaching_update 7) (Some 5) (attach 7 (attach 7 (Subject_init :: int Subject))) []
     = Some (Inr (), \<lparr>observers = [7], state = Some 5\<rparr>, [(7, Some 5)])"
  by (simp add: set_state_def notify_def notify_from.simps detaching_update_def
      detach_def attach_def Subject_init_def)

text \<open>
  C10, amended. \<open>attach\<close> checks nothing: attaching \<open>x\<close> \<open>k\<close> times adds \<open>k\<close> registrations of
  \<open>x\<close> at the end of the list. When \<open>x\<close> and the subscribers attached before it are
  passive, a state change then returns and has notified the earlier registrations and
  after them \<open>x\<close>, \<open>k\<close> times. \<open>detach\<close> removes one registration only, the first one in
  the list (on a new subject, \<open>k + 1\<close> registrations of \<open>x\<close> become \<open>k\<close>).
\<close>

theorem duplicates_registered:
  fixes subj :: "'st Subject" and v :: "'st option"
  assumes "\<And>r st s w. r \<in> insert x (set (observers subj)) \<Longrightarrow>
             \<exists>w'. update r st s w = (Inr (), s, w')"
  shows "observers ((attach x ^^ k) subj) = observers subj @ replicate k x
   \<and> set_state update v ((attach x ^^ k) subj) w =
       Some (Inr (), ((attach x ^^ k) subj)\<lparr>state := v\<rparr>,
         foldl (\<lambda>w r. snd (snd (update r v (((attach x ^^ k) subj)\<lparr>state := v\<rparr>) w))) w
           (observers subj @ replicate k x))
   \<and> set_state record_update v ((attach x ^^ k) subj) calls =
       Some (Inr () :: py_error + unit, ((attach x ^^ k) subj)\<lparr>state := v\<rparr>,
         calls @ map (\<lambda>r. (r, v)) (observers subj) @ replicate k (x, v))
   \<and> detach x ((attach x ^^ Suc k) (Subject_init :: 'st Subject)) = (Inr (), (attach x ^^ k) Subject_init)
   \<and> (x \<notin> set ys \<longrightarrow>
        detach x (subj\<lparr>observers := ys @ x # zs\<rparr>) = (Inr (), subj\<lparr>observers := ys @ zs\<rparr>))"
proof -
  have a: "observers ((attach x ^^ k) subj) = observers subj @ replicate k x"
    by (rule observers_attach_pow)
  have st: "state ((attach x ^^ n) (Subject_init :: 'st Subject)) = None" for n
    by (induction n) (simp_all add: attach_def Subject_init_def)
  have ob: "observers ((attach x ^^ n) (Subject_init :: 'st Subject)) = replicate n x" for n
    by (simp add: observers_attach_pow Subject_init_def)
  have eq: "(attach x ^^ n) (Subject_init :: 'st Subject) = \<lparr>observers = replicate n x, state = None\<rparr>" for n
    using ob [of n] st [of n] by (cases "(attach x ^^ n) (Subject_init :: 'st Subject)") simp
  have p: "\<And>r st s w. r \<in> set (observers ((attach x ^^ k) subj)) \<Longrightarrow>
      \<exists>w'. update r st s w = (Inr (), s, w')"
    using assms by (auto simp: a)
  have b: "set_state update v ((attach x ^^ k) subj) w =
       Some (Inr (), ((attach x ^^ k) subj)\<lparr>state := v\<rparr>,
         foldl (\<lambda>w r. snd (snd (update r v (((attach x ^^ k) subj)\<lparr>state := v\<rparr>) w))) w
           (observers subj @ replicate k x))"
    using set_state_passive [of "(attach x ^^ k) subj" update v w, OF p] by (simp only: a)
  have b': "set_state record_update v ((attach x ^^ k) subj) calls =
       Some (Inr () :: py_error + unit, ((attach x ^^ k) subj)\<lparr>state := v\<rparr>,
         calls @ map (\<lambda>r. (r, v)) (observers subj) @ replicate k (x, v))"
    by (simp add: set_state_record a)
  have c: "detach x ((attach x ^^ Suc k) (Subject_init :: 'st Subject)) = (Inr (), (attach x ^^ k) Subject_init)"
    unfolding eq by (simp add: detach_def)
  have d: "x \<notin> set ys \<longrightarrow>
        detach x (subj\<lparr>observers := ys @ x # zs\<rparr>) = (Inr (), subj\<lparr>observers := ys @ zs\<rparr>)"
    by (simp add: detach_def remove1_append)
  show ?thesis using a b b' c d by blast
qed

theorem duplicates_registered_witness:
  "observers ((attach 7 ^^ 3) usage_subject) = [1, 2, 3, 7, 7, 7]
   \<and> set_state (raising_update 9) (Some 5) ((attach 7 ^^ 3) usage_subject) []
       = Some (Inr (), \<lparr>observers = [1, 2, 3, 7, 7, 7], state = Some 5\<rparr>,
           [(1, Some 5), (2, Some 5), (3, Some 5), (7, Some 5), (7, Some 5), (7, Some 5)])
   \<and> detach 7 ((attach 7 ^^ 3) (Subject_init :: int Subject)) = (Inr (), (attach 7 ^^ 2) Subject_init)
   \<and> detach 7 (usage_subject\<lparr>observers := [1, 2] @ 7 # [3, 7]\<rparr>)
       = (Inr (), usage_subject\<lparr>observers := [1, 2] @ [3, 7]\<rparr>)"
proof -
  have h: "(7::nat) \<notin> set [1, 2]" by simp
  have p: "\<And>r st s w. r \<in> insert 7 (set (observers usage_subject)) \<Longrightarrow>
      \<exists>w'. raising_update 9 r st (s :: int Subject) w = (Inr (), s, w')"
    by (auto simp: raising_update_def usage_subject_def attach_def Subject_init_def)
  have o: "observers ((attach 7 ^^ 3) usage_subject) = [1, 2, 3, 7, 7, 7]"
    by (simp add: numeral_3_eq_3 usage_subject_def attach_def Subject_init_def)
  show ?thesis
    using duplicates_registered [where x = 7 and k = 2 and subj = usage_subject and v = "Some (5::int)"
        and update = "raising_update 9" and w = "[]"
        and calls = "[]" and ys = "[1, 2]" and zs = "[3, 7]", OF p]
      duplicates_registered [where x = 7 and k = 3 and subj = usage_subject and v = "Some (5::int)"
        and update = "raising_update 9" and w = "[]"
        and calls = "[]" and ys = "[1, 2]" and zs = "[3, 7]", OF p] h o
    by (simp add: numeral_3_eq_3 numeral_2_eq_2 usage_subject_def attach_def Subject_init_def
        raising_update_def)
qed

section \<open>Properties of the singleton\<close>

lemma new_existing: "cls_instance w = Some r \<Longrightarrow> Singleton_new w = (r, w)"
  by (simp add: Singleton_new_def)

lemma new_sets_instance: "cls_instance (snd (Singleton_new w)) = Some (fst (Singleton_new w))"
  by (simp add: Singleton_new_def split: option.splits)

lemma increment_instance: "cls_instance (increment r w) = cls_instance w"
  by (simp add: increment_def)

lemma val_increment:
  "val (objs (increment r w) r') = (if r' = r then val (objs w r) + 1 else val (objs w r'))"
  by (simp add: increment_def)

lemma exec_inv:
  assumes "\<forall>r \<in> set refs. cls_instance w = Some r" and "exec (refs, w) c = (refs', w')"
  shows "\<forall>r \<in> set refs'. cls_instance w' = Some r"
proof (cases c)
  case Construct
  show ?thesis
  proof (cases "cls_instance w")
    case None
    with assms(1) have "refs = []" by (cases refs) auto
    with assms(2) Construct None show ?thesis
      by (auto simp: Singleton_new_def)
  next
    case (Some r)
    with assms Construct show ?thesis
      by (auto simp: Singleton_new_def)
  qed
next
  case (Increment i)
  with assms show ?thesis
    by (auto simp: increment_instance split: if_splits)
qed

lemma foldl_exec_inv:
  "\<forall>r \<in> set refs. cls_instance w = Some r \<Longrightarrow> foldl exec (refs, w) prog = (refs', w')
     \<Longrightarrow> \<forall>r \<in> set refs'. cls_instance w' = Some r"
proof (induction prog arbitrary: refs w)
  case Nil
  then show ?case by simp
next
  case (Cons c prog)
  obtain refs1 w1 where e: "exec (refs, w) c = (refs1, w1)" by (cases "exec (refs, w) c")
  have "\<forall>r \<in> set refs1. cls_instance w1 = Some r"
    using exec_inv [OF Cons.prems(1) e] .
  moreover have "foldl exec (refs1, w1) prog = (refs', w')"
    using Cons.prems(2) e by simp
  ultimately show ?case by (rule Cons.IH)
qed

lemma run_inv: "run prog w0 = (refs, w) \<Longrightarrow> r \<in> set refs \<Longrightarrow> cls_instance w = Some r"
  using foldl_exec_inv [of "[]" w0 prog refs w] by (simp add: run_def)

text \<open>
  C7. Whatever a client does (construction requests and increments in any order, from
  any starting world), every construction request returns the same reference as every
  other one, and an increment made through the reference of one request raises by one the
  value read through the reference of any other.
\<close>

theorem singleton_identity:
  assumes "run prog w0 = (refs, w)" and "i < length refs" and "j < length refs"
  shows "refs ! i = refs ! j
       \<and> val (objs (increment (refs ! i) w) (refs ! j)) = val (objs w (refs ! j)) + 1"
proof -
  have "cls_instance w = Some (refs ! i)" "cls_instance w = Some (refs ! j)"
    using assms by (auto intro: run_inv)
  then have "refs ! i = refs ! j" by simp
  then show ?thesis by (simp add: val_increment)
qed

lemma usage_run:
  "fst (run usage_prog class_defined) = [0, 0]
   \<and> val (objs (snd (run usage_prog class_defined)) 0) = 2"
  by (simp add: usage_prog_def run_def class_defined_def Singleton_new_def increment_def)

theorem singleton_identity_witness:
  "fst (run usage_prog class_defined) ! 0 = fst (run usage_prog class_defined) ! 1
   \<and> val (objs (increment 0 (snd (run usage_prog class_defined))) 0) = 3"
proof -
  have r: "run usage_prog class_defined =
      (fst (run usage_prog class_defined), snd (run usage_prog class_defined))"
    by simp
  have l: "0 < length (fst (run usage_prog class_defined))" "1 < length (fst (run usage_prog class_defined))"
    by (simp_all add: usage_run)
  show ?thesis
    using singleton_identity [OF r l] usage_run by simp
qed

lemma run_snoc: "run (prog @ [c]) w0 = exec (run prog w0) c"
  by (simp add: run_def)

text \<open>
  C9. When the instance exists, a construction request returns it and leaves the whole
  world, the instance's \<open>value\<close> included, as it was; \<open>value\<close> is set to 0 only by the
  request that finds no instance. So after any run with at least one construction, one
  more construction changes nothing.
\<close>

theorem construct_again_keeps_state:
  "(cls_instance w = Some r \<longrightarrow> Singleton_new w = (r, w))
   \<and> (cls_instance w = None \<longrightarrow> val (objs (snd (Singleton_new w)) (fst (Singleton_new w))) = 0)
   \<and> (run prog w0 = (refs, w1) \<and> refs \<noteq> [] \<longrightarrow>
        run (prog @ [Construct]) w0 = (refs @ [last refs], w1))"
proof -
  have a: "cls_instance w = Some r \<longrightarrow> Singleton_new w = (r, w)"
    by (simp add: new_existing)
  have b: "cls_instance w = None \<longrightarrow> val (objs (snd (Singleton_new w)) (fst (Singleton_new w))) = 0"
    by (simp add: Singleton_new_def)
  have c: "run prog w0 = (refs, w1) \<and> refs \<noteq> [] \<longrightarrow>
        run (prog @ [Construct]) w0 = (refs @ [last refs], w1)"
  proof
    assume h: "run prog w0 = (refs, w1) \<and> refs \<noteq> []"
    then have "last refs \<in> set refs" by simp
    with h have "cls_instance w1 = Some (last refs)" by (auto intro: run_inv)
    then have "Singleton_new w1 = (last refs, w1)" by (rule new_existing)
    with h show "run (prog @ [Construct]) w0 = (refs @ [last refs], w1)"
      by (simp add: run_snoc)
  qed
  show ?thesis using a b c by blast
qed

theorem construct_again_keeps_state_witness:
  "val (objs (snd (Singleton_new class_defined)) (fst (Singleton_new class_defined))) = 0
   \<and> Singleton_new (increment 0 (snd (Singleton_new class_defined))) =
       (0, increment 0 (snd (Singleton_new class_defined)))
   \<and> val (objs (snd (Singleton_new (increment 0 (snd (Singleton_new class_defined))))) 0) = 1
   \<and> run ([Construct, Increment 0] @ [Construct]) class_defined =
       ([0] @ [last [0]], snd (run [Construct, Increment 0] class_defined))"
proof -
  have n: "cls_instance class_defined = None"
    by (simp add: class_defined_def)
  have i: "cls_instance (increment 0 (snd (Singleton_new class_defined))) = Some 0"
    by (simp add: increment_instance new_sets_instance) (simp add: Singleton_new_def class_defined_def)
  have v: "val (objs (increment 0 (snd (Singleton_new class_defined))) 0) = 1"
    by (simp add: increment_def Singleton_new_def class_defined_def)
  have r: "run [Construct, Increment 0] class_defined =
      ([0], snd (run [Construct, Increment 0] class_defined))"
    by (simp add: run_def class_defined_def Singleton_new_def increment_def)
  have ne: "[0::nat] \<noteq> []" by simp
  show ?thesis
    using construct_again_keeps_state [where w = class_defined and r = 0
        and prog = "[Construct, Increment 0]" and ?w0.0 = class_defined
        and refs = "[0]" and ?w1.0 = "snd (run [Construct, Increment 0] class_defined)"]
      construct_again_keeps_state [where w = "increment 0 (snd (Singleton_new class_defined))" and r = 0
        and prog = "[Construct, Increment 0]" and ?w0.0 = class_defined
        and refs = "[0]" and ?w1.0 = "snd (run [Construct, Increment 0] class_defined)"]
      n i v r ne
    by simp
qed

section \<open>Properties of the decorators\<close>

lemma greet_farewell_raise:
  "func args = (Inl e, printed) \<Longrightarrow> greet (farewell func) args = (Inl e, ''Hello!'' # printed)"
  by (simp add: greet_def farewell_def)

text \<open>
  C8. For a base function that returns \<open>result\<close> after printing \<open>printed\<close>, the stacked
  function \<open>greet (farewell func)\<close> prints \<open>Hello!\<close> (the outer wrapper, before), then what
  the base prints, then \<open>Goodbye!\<close> (the inner wrapper, after), and returns \<open>result\<close>
  unchanged.
\<close>

theorem decorators_nest:
  "func args = (Inr result, printed) \<Longrightarrow>
     greet (farewell func) args = (Inr result, ''Hello!'' # printed @ [''Goodbye!''])"
  by (simp add: greet_def farewell_def)

theorem decorators_nest_witness:
  "(say_name :: (string, py_error, unit) py_fun) ''Alice'' =
     (Inr (), [''Hello!'', ''My name is Alice.'', ''Goodbye!''])"
proof -
  have "(say_name_body :: (string, py_error, unit) py_fun) ''Alice'' = (Inr (), [''My name is Alice.''])"
    by (simp add: say_name_body_def)
  from decorators_nest [where func = "say_name_body :: (string, py_error, unit) py_fun"
      and args = "''Alice''", OF this]
  show ?thesis
    by (simp add: say_name_def)
qed

lemma add_numbers_usage:
  "(add_numbers :: (int \<times> int, py_error, int) py_fun) (5, 3) = (Inr 8, [''Hello!''])"
  by (simp add: add_numbers_def add_numbers_body_def greet_def)

end
